theory Spec2Isabelle
  imports Main "HOL-Library.Multiset"
begin

section \<open>Values: JSON, Python dicts, exceptions\<close>

text \<open>
  Request bodies, payloads and the dicts produced by \<open>Notification.to_dict\<close> are JSON
  values. A Python dict is an association list in insertion order; \<open>k in d\<close> and
  \<open>d.get(k)\<close> are \<open>map_of\<close>, \<open>d[k]\<close> raises \<open>KeyError\<close> on a missing key.
\<close>

datatype json =
    JNull
  | JBool bool
  | JInt int
  | JStr string
  | JList "json list"
  | JObject "(string \<times> json) list"

type_synonym dict = "(string \<times> json) list"

datatype exn =
    HTTPException int string
  | RequestValidationError
  | StoreError
  | KeyError
  | AttributeError
  | TimeoutError
  | JSONDecodeError
  | WebSocketDisconnect

definition has_key :: "dict \<Rightarrow> string \<Rightarrow> bool" where
  "has_key d k = (map_of d k \<noteq> None)"

definition subscript :: "dict \<Rightarrow> string \<Rightarrow> exn + json" where
  "subscript d k = (case map_of d k of None \<Rightarrow> Inl KeyError | Some v \<Rightarrow> Inr v)"

definition get_default :: "dict \<Rightarrow> string \<Rightarrow> json \<Rightarrow> json" where
  "get_default d k dflt = (case map_of d k of None \<Rightarrow> dflt | Some v \<Rightarrow> v)"

section \<open>models.py: the Notification row\<close>

text \<open>
  The columns of \<open>Notification\<close>. \<open>id\<close> is the text of the UUID, \<open>created_at\<close> the ISO
  text of the timestamp (\<open>None\<close> until the server default has filled it in).
\<close>

record notification =
  n_id :: string
  n_seq :: int
  n_type :: json
  n_payload :: json
  n_created_at :: "string option"

definition to_dict :: "notification \<Rightarrow> dict" where
  "to_dict n =
     [(''id'', JStr (n_id n)),
      (''seq'', JInt (n_seq n)),
      (''type'', n_type n),
      (''payload'', n_payload n),
      (''created_at'', (case n_created_at n of Some t \<Rightarrow> JStr t | None \<Rightarrow> JNull))]"

section \<open>The store\<close>

text \<open>
  The table \<open>notifications\<close> in insertion order, and the database sequence
  \<open>notification_seq\<close> that numbers the rows.
\<close>

record store =
  rows :: "notification list"
  next_seq :: int

text \<open>
  Modelled from the spec: the database session of \<open>app/database.py\<close> (\<open>db.add\<close>,
  \<open>db.commit\<close>, \<open>db.refresh\<close>), which is not among the sources. \<open>append\<close> "atomically
  assigns the next seq, persists, returns the full record; fails with StoreError on
  persistence failure". The one persistence failure the sources fix is the
  \<open>nullable=False\<close> of the column \<open>type\<close>; a failed insert has drawn its number from
  the sequence all the same ("gaps may occur, e.g. from aborted writes").
\<close>

definition db_add_commit ::
  "json \<Rightarrow> json \<Rightarrow> string \<Rightarrow> string \<Rightarrow> store \<Rightarrow> (exn + notification) \<times> store" where
  "db_add_commit ty pl uuid now s =
     (let s' = s\<lparr>next_seq := next_seq s + 1\<rparr> in
      if ty = JNull then (Inl StoreError, s')
      else
        (let n = \<lparr>n_id = uuid, n_seq = next_seq s, n_type = ty, n_payload = pl,
                  n_created_at = Some now\<rparr>
         in (Inr n, s'\<lparr>rows := rows s @ [n]\<rparr>)))"

text \<open>
  Modelled from the spec: the query
  \<open>filter(seq > after_seq).order_by(seq.asc()).limit(limit).all()\<close> is the Store's
  \<open>range(after_seq, limit)\<close>: "up to limit records with seq > after_seq, ascending".
\<close>

definition range_rows :: "int \<Rightarrow> nat \<Rightarrow> notification list \<Rightarrow> notification list" where
  "range_rows after_seq limit rs =
     take limit (sort_key n_seq (filter (\<lambda>n. after_seq < n_seq n) rs))"

text \<open>The database refuses a negative \<open>LIMIT\<close>.\<close>

definition db_query :: "int \<Rightarrow> int \<Rightarrow> store \<Rightarrow> exn + notification list" where
  "db_query after_seq limit s =
     (if limit < 0 then Inl StoreError else Inr (range_rows after_seq (nat limit) (rows s)))"

section \<open>broadcaster.py\<close>

text \<open>
  An \<open>asyncio.Queue\<close> is an object: the broadcaster's list holds references to the
  queues, and the handler that subscribed holds another reference to its own. Queues are
  therefore addresses into a heap of mailboxes; \<open>asyncio.Queue()\<close> allocates the next
  address. The queues are unbounded, so \<open>put\<close> never waits.
\<close>

record broadcaster =
  subscribers :: "nat list"
  mailbox :: "nat \<Rightarrow> dict list"
  next_queue :: nat

definition subscribe :: "broadcaster \<Rightarrow> nat \<times> broadcaster" where
  "subscribe b =
     (let queue = next_queue b
      in (queue, b\<lparr>subscribers := subscribers b @ [queue],
                   mailbox := (mailbox b)(queue := []),
                   next_queue := queue + 1\<rparr>))"

definition unsubscribe :: "nat \<Rightarrow> broadcaster \<Rightarrow> broadcaster" where
  "unsubscribe queue b =
     (if queue \<in> set (subscribers b)
      then b\<lparr>subscribers := remove1 queue (subscribers b)\<rparr>
      else b)"

definition put :: "dict \<Rightarrow> broadcaster \<Rightarrow> nat \<Rightarrow> broadcaster" where
  "put message b queue = b\<lparr>mailbox := (mailbox b)(queue := mailbox b queue @ [message])\<rparr>"

definition broadcast :: "dict \<Rightarrow> broadcaster \<Rightarrow> broadcaster" where
  "broadcast message b =
     (if subscribers b = [] then b
      else foldl (put message) b (subscribers b))"

section \<open>main.py: the request handlers\<close>

text \<open>
  The state the handlers share: the database and the module-level broadcaster.
\<close>

record app =
  db :: store
  bcast :: broadcaster

subsection \<open>POST /api/notifications\<close>

text \<open>
  \<open>uuid\<close> and \<open>now\<close> are the values \<open>uuid.uuid4\<close> and the server's \<open>now()\<close> produce for
  this request. The handler has no suspension point between the commit and the end of
  the broadcast (\<open>put\<close> on an unbounded queue does not wait), so it is one atomic step.
\<close>

definition create_notification ::
  "dict \<Rightarrow> string \<Rightarrow> string \<Rightarrow> app \<Rightarrow> (exn + int \<times> dict) \<times> app" where
  "create_notification data uuid now st =
     (if \<not> has_key data ''type'' \<or> \<not> has_key data ''payload''
      then (Inl (HTTPException 400 ''Missing type or payload''), st)
      else
        (case subscript data ''type'' of
           Inl e \<Rightarrow> (Inl e, st)
         | Inr ty \<Rightarrow>
             (case subscript data ''payload'' of
                Inl e \<Rightarrow> (Inl e, st)
              | Inr pl \<Rightarrow>
                  (case db_add_commit ty pl uuid now (db st) of
                     (Inl e, s') \<Rightarrow> (Inl e, st\<lparr>db := s'\<rparr>)
                   | (Inr notification, s') \<Rightarrow>
                       (let result = to_dict notification
                        in (Inr (201, result),
                            st\<lparr>db := s', bcast := broadcast result (bcast st)\<rparr>))))))"

subsection \<open>GET /api/notifications\<close>

record poll_response =
  items :: "dict list"
  next_after_seq :: json

definition poll_notifications ::
  "int \<Rightarrow> int \<Rightarrow> app \<Rightarrow> (exn + poll_response) \<times> app" where
  "poll_notifications after_seq limit st =
     (if limit > 200 then (Inl RequestValidationError, st)
      else
        (case db_query after_seq limit (db st) of
           Inl e \<Rightarrow> (Inl e, st)
         | Inr its \<Rightarrow>
             (let results = map to_dict its in
              case (if results \<noteq> [] then subscript (last results) ''seq''
                    else Inr (JInt after_seq)) of
                Inl e \<Rightarrow> (Inl e, st)
              | Inr nxt \<Rightarrow> (Inr \<lparr>items = results, next_after_seq = nxt\<rparr>, st))))"

subsection \<open>GET /api/notifications/stream\<close>

text \<open>
  A frame the generator yields: \<open>Event i d\<close> is the text
  \<open>id: i\<close>, \<open>event: notification\<close>, \<open>data: json.dumps(d)\<close> and a blank line;
  \<open>Ping\<close> is the comment frame \<open>: ping\<close>.
\<close>

datatype sse_frame = Event json dict | Ping

text \<open>
  Where the generator is suspended. \<open>SSE_Start\<close>: not yet iterated.
  \<open>SSE_Yield item rest\<close>: at the \<open>yield\<close> of the backlog loop for \<open>item\<close>, with
  \<open>rest\<close> still to come (the assignment \<open>cursor = item.seq\<close> runs on resumption).
  \<open>SSE_Live queue\<close>: inside the \<open>while True\<close> loop, holding its queue.
  \<open>SSE_Closed\<close>: the generator has returned or raised.
\<close>

datatype sse_pc =
    SSE_Start
  | SSE_Yield notification "notification list"
  | SSE_Live nat
  | SSE_Closed

record sse_conn =
  last_event_id :: "int option"
  sse_pc :: sse_pc
  cursor :: int
  sse_out :: "sse_frame list"

definition keepalive_timeout :: nat where
  "keepalive_timeout = 15"

text \<open>\<open>queue.get()\<close> on a mailbox that is not empty takes its head out.\<close>

definition get_nowait :: "nat \<Rightarrow> broadcaster \<Rightarrow> broadcaster" where
  "get_nowait queue b = b\<lparr>mailbox := (mailbox b)(queue := tl (mailbox b queue))\<rparr>"

text \<open>
  The backlog loop from its head: yield the next item, or, the backlog exhausted,
  subscribe and enter the live loop.
\<close>

definition sse_backlog :: "notification list \<Rightarrow> app \<times> sse_conn \<Rightarrow> app \<times> sse_conn" where
  "sse_backlog backlog s =
     (case s of (st, c) \<Rightarrow>
        (case backlog of
           item # rest \<Rightarrow>
             (st, c\<lparr>sse_pc := SSE_Yield item rest,
                    sse_out := sse_out c @ [Event (JInt (n_seq item)) (to_dict item)]\<rparr>)
         | [] \<Rightarrow>
             (case subscribe (bcast st) of
                (queue, b) \<Rightarrow> (st\<lparr>bcast := b\<rparr>, c\<lparr>sse_pc := SSE_Live queue\<rparr>))))"

text \<open>
  One resumption of \<open>event_generator\<close>, run to its next suspension. \<open>disconnected\<close> is
  what \<open>request.is_disconnected()\<close> answers, \<open>idle\<close> the time units for which
  \<open>asyncio.wait_for(queue.get(), timeout=15.0)\<close> has found the mailbox empty: the wait
  returns the head of a non-empty mailbox at once, raises \<open>TimeoutError\<close> when
  \<open>idle\<close> reaches the timeout, and goes on waiting otherwise.
\<close>

definition sse_step :: "bool \<times> nat \<Rightarrow> app \<times> sse_conn \<Rightarrow> app \<times> sse_conn" where
  "sse_step obs s =
     (case (obs, s) of ((disconnected, idle), (st, c)) \<Rightarrow>
        (case sse_pc c of
           SSE_Start \<Rightarrow>
             (let cur = (case last_event_id c of None \<Rightarrow> 0
                         | Some v \<Rightarrow> if v = 0 then 0 else v);
                  backlog = range_rows cur 200 (rows (db st))
              in sse_backlog backlog (st, c\<lparr>cursor := cur\<rparr>))
         | SSE_Yield item rest \<Rightarrow> sse_backlog rest (st, c\<lparr>cursor := n_seq item\<rparr>)
         | SSE_Live queue \<Rightarrow>
             (if disconnected
              then (st\<lparr>bcast := unsubscribe queue (bcast st)\<rparr>, c\<lparr>sse_pc := SSE_Closed\<rparr>)
              else
                (case mailbox (bcast st) queue of
                   msg # ms \<Rightarrow>
                     (case subscript msg ''seq'' of
                        Inl e \<Rightarrow>
                          (st\<lparr>bcast := unsubscribe queue (get_nowait queue (bcast st))\<rparr>,
                           c\<lparr>sse_pc := SSE_Closed\<rparr>)
                      | Inr i \<Rightarrow>
                          (st\<lparr>bcast := get_nowait queue (bcast st)\<rparr>,
                           c\<lparr>sse_out := sse_out c @ [Event i msg]\<rparr>))
                 | [] \<Rightarrow>
                     (if keepalive_timeout \<le> idle
                      then (st, c\<lparr>sse_out := sse_out c @ [Ping]\<rparr>)
                      else (st, c))))
         | SSE_Closed \<Rightarrow> (st, c)))"

subsection \<open>WebSocket /ws\<close>

text \<open>The JSON message \<open>{"type": "notification", "data": d}\<close>.\<close>

definition notification_message :: "dict \<Rightarrow> json" where
  "notification_message d = JObject [(''type'', JStr ''notification''), (''data'', JObject d)]"

text \<open>
  Where the handler is suspended. \<open>WS_Start\<close>: in \<open>websocket.accept()\<close>.
  \<open>WS_Hello queue\<close>: subscribed, in \<open>receive_json\<close> under the 5 second timeout.
  \<open>WS_Send queue rest\<close>: in \<open>send_json\<close> of a backlog item, \<open>rest\<close> still to send.
  \<open>WS_Live queue\<close>: \<open>push_task\<close> is running and the handler is in \<open>receive_text\<close>.
  \<open>WS_Closed code\<close>: the handler called \<open>websocket.close(code)\<close> and returned.
  \<open>WS_Ended\<close>: the handler returned after the client's disconnect.
  \<open>WS_Raised e\<close>: the exception \<open>e\<close> left the handler.
\<close>

datatype ws_pc =
    WS_Start
  | WS_Hello nat
  | WS_Send nat "notification list"
  | WS_Live nat
  | WS_Closed int
  | WS_Ended
  | WS_Raised exn

record ws_conn =
  ws_pc :: ws_pc
  ws_out :: "json list"

text \<open>
  What happens to the connection: the pending \<open>await\<close> of the handler raises or returns
  (for \<open>receive_json\<close> the decoded message), or it has been pending for so many time
  units with nothing arriving, or \<open>push_task\<close> is scheduled. Only the \<open>receive_json\<close>
  of the handshake is under a timeout: \<open>asyncio.wait_for(..., timeout=5.0)\<close> raises
  \<open>asyncio.TimeoutError\<close> once the wait has lasted that long.
\<close>

datatype ws_input = Raises exn | Returns json | Idle nat | Push

definition handshake_timeout :: nat where
  "handshake_timeout = 5"

text \<open>
  An exception inside the inner \<open>try\<close>: the three caught classes close with 1008 and
  return, any other leaves the handler; the \<open>finally\<close> unsubscribes in both cases.
\<close>

definition ws_except :: "exn \<Rightarrow> nat \<Rightarrow> app \<times> ws_conn \<Rightarrow> app \<times> ws_conn" where
  "ws_except e queue s =
     (case s of (st, c) \<Rightarrow>
        (st\<lparr>bcast := unsubscribe queue (bcast st)\<rparr>,
         c\<lparr>ws_pc := (if e = TimeoutError \<or> e = JSONDecodeError \<or> e = KeyError
                      then WS_Closed 1008 else WS_Raised e)\<rparr>))"

definition ws_backlog :: "nat \<Rightarrow> notification list \<Rightarrow> app \<times> ws_conn \<Rightarrow> app \<times> ws_conn" where
  "ws_backlog queue backlog s =
     (case s of (st, c) \<Rightarrow>
        (case backlog of
           item # rest \<Rightarrow>
             (st, c\<lparr>ws_pc := WS_Send queue rest,
                    ws_out := ws_out c @ [notification_message (to_dict item)]\<rparr>)
         | [] \<Rightarrow> (st, c\<lparr>ws_pc := WS_Live queue\<rparr>)))"

text \<open>
  A value of \<open>last_seq\<close> that is not an integer goes into the comparison with the
  \<open>BigInteger\<close> column as it is; the model takes the query to fail on it.
\<close>

definition ws_hello :: "json \<Rightarrow> nat \<Rightarrow> app \<times> ws_conn \<Rightarrow> app \<times> ws_conn" where
  "ws_hello hello_msg queue s =
     (case s of (st, c) \<Rightarrow>
        (case hello_msg of
           JObject d \<Rightarrow>
             (if map_of d ''type'' \<noteq> Some (JStr ''hello'')
              then (st\<lparr>bcast := unsubscribe queue (bcast st)\<rparr>, c\<lparr>ws_pc := WS_Closed 1008\<rparr>)
              else
                (case get_default d ''last_seq'' (JInt 0) of
                   JInt last_seq \<Rightarrow>
                     ws_backlog queue (range_rows last_seq 200 (rows (db st))) (st, c)
                 | _ \<Rightarrow> ws_except StoreError queue (st, c)))
         | _ \<Rightarrow> ws_except AttributeError queue (st, c)))"

definition ws_step :: "ws_input \<Rightarrow> app \<times> ws_conn \<Rightarrow> app \<times> ws_conn" where
  "ws_step i s =
     (case s of (st, c) \<Rightarrow>
        (case ws_pc c of
           WS_Start \<Rightarrow>
             (case i of
                Returns v \<Rightarrow>
                  (case subscribe (bcast st) of
                     (queue, b) \<Rightarrow> (st\<lparr>bcast := b\<rparr>, c\<lparr>ws_pc := WS_Hello queue\<rparr>))
              | Raises e \<Rightarrow> (st, c\<lparr>ws_pc := WS_Raised e\<rparr>)
              | Idle n \<Rightarrow> (st, c)
              | Push \<Rightarrow> (st, c))
         | WS_Hello queue \<Rightarrow>
             (case i of
                Returns hello_msg \<Rightarrow> ws_hello hello_msg queue (st, c)
              | Raises e \<Rightarrow> ws_except e queue (st, c)
              | Idle n \<Rightarrow>
                  (if handshake_timeout \<le> n then ws_except TimeoutError queue (st, c)
                   else (st, c))
              | Push \<Rightarrow> (st, c))
         | WS_Send queue rest \<Rightarrow>
             (case i of
                Returns v \<Rightarrow> ws_backlog queue rest (st, c)
              | Raises e \<Rightarrow> ws_except e queue (st, c)
              | Idle n \<Rightarrow> (st, c)
              | Push \<Rightarrow> (st, c))
         | WS_Live queue \<Rightarrow>
             (case i of
                Returns v \<Rightarrow> (st, c)
              | Raises e \<Rightarrow>
                  (st\<lparr>bcast := unsubscribe queue (bcast st)\<rparr>,
                   c\<lparr>ws_pc := (if e = WebSocketDisconnect then WS_Ended else WS_Raised e)\<rparr>)
              | Idle n \<Rightarrow> (st, c)
              | Push \<Rightarrow>
                  (case mailbox (bcast st) queue of
                     msg # ms \<Rightarrow>
                       (st\<lparr>bcast := get_nowait queue (bcast st)\<rparr>,
                        c\<lparr>ws_out := ws_out c @ [notification_message msg]\<rparr>)
                   | [] \<Rightarrow> (st, c)))
         | WS_Closed code \<Rightarrow> (st, c)
         | WS_Ended \<Rightarrow> (st, c)
         | WS_Raised e \<Rightarrow> (st, c)))"

section \<open>Schedules\<close>

text \<open>
  The handlers are coroutines of one event loop: between two suspension points a
  handler runs alone. A schedule is the order in which the loop runs the steps: a
  create request (one atomic step), or one resumption of the connection under
  observation.
\<close>

datatype 'i event = Create dict string string | Step 'i

definition exec ::
  "('i \<Rightarrow> app \<times> 'c \<Rightarrow> app \<times> 'c) \<Rightarrow> app \<times> 'c \<Rightarrow> 'i event \<Rightarrow> app \<times> 'c" where
  "exec step s ev =
     (case ev of
        Create data uuid now \<Rightarrow> (snd (create_notification data uuid now (fst s)), snd s)
      | Step i \<Rightarrow> step i s)"

definition run ::
  "('i \<Rightarrow> app \<times> 'c \<Rightarrow> app \<times> 'c) \<Rightarrow> 'i event list \<Rightarrow> app \<times> 'c \<Rightarrow> app \<times> 'c" where
  "run step evs s = foldl (exec step) s evs"

text \<open>The records the create requests of a schedule answer with 201, in order.\<close>

fun created ::
  "('i \<Rightarrow> app \<times> 'c \<Rightarrow> app \<times> 'c) \<Rightarrow> 'i event list \<Rightarrow> app \<times> 'c \<Rightarrow> dict list" where
  "created step [] s = []"
| "created step (ev # evs) s =
     (case ev of
        Create data uuid now \<Rightarrow>
          (case fst (create_notification data uuid now (fst s)) of
             Inr (status, result) \<Rightarrow> [result]
           | Inl e \<Rightarrow> [])
      | Step i \<Rightarrow> [])
     @ created step evs (exec step s ev)"

section \<open>Observing a socket connection\<close>

text \<open>The record a create request answers with, if it succeeds.\<close>

definition answered :: "(exn + int \<times> dict) \<Rightarrow> dict list" where
  "answered r = (case r of Inr (status, result) \<Rightarrow> [result] | Inl e \<Rightarrow> [])"

text \<open>
  The broadcaster as the code keeps it: each queue is appended once, when it is allocated,
  so the list has no repetition and holds allocated queues only.
\<close>

definition bcast_ok :: "broadcaster \<Rightarrow> bool" where
  "bcast_ok b = (distinct (subscribers b) \<and> (\<forall>queue\<in>set (subscribers b). queue < next_queue b))"

text \<open>
  Events of a schedule: the pending \<open>await\<close> of the handler completes or its wait is
  measured; the pending \<open>await\<close> raises.
\<close>

definition is_resumption :: "ws_input event \<Rightarrow> bool" where
  "is_resumption ev =
     (case ev of
        Step (Raises e) \<Rightarrow> True
      | Step (Returns v) \<Rightarrow> True
      | Step (Idle n) \<Rightarrow> True
      | _ \<Rightarrow> False)"

definition is_raise :: "ws_input event \<Rightarrow> bool" where
  "is_raise ev = (case ev of Step (Raises e) \<Rightarrow> True | _ \<Rightarrow> False)"

text \<open>The handshake is done and the connection is open: the backlog loop or the live phase.\<close>

definition ws_serving :: "nat \<Rightarrow> ws_conn \<Rightarrow> bool" where
  "ws_serving queue c =
     (case ws_pc c of
        WS_Send queue' rest \<Rightarrow> queue' = queue
      | WS_Live queue' \<Rightarrow> queue' = queue
      | _ \<Rightarrow> False)"

text \<open>
  What a socket client has been sent, or is queued to be sent, in the order it is sent:
  the messages written to the socket, the backlog items still waiting in the backlog
  loop, and the mailbox that \<open>push_task\<close> drains.
\<close>

definition ws_pending :: "ws_conn \<Rightarrow> json list" where
  "ws_pending c =
     (case ws_pc c of
        WS_Send queue rest \<Rightarrow> map (\<lambda>item. notification_message (to_dict item)) rest
      | _ \<Rightarrow> [])"

definition ws_stream :: "nat \<Rightarrow> app \<times> ws_conn \<Rightarrow> json list" where
  "ws_stream queue s =
     ws_out (snd s) @ ws_pending (snd s)
       @ map notification_message (mailbox (bcast (fst s)) queue)"

text \<open>
  The steps that let a connection send all that is queued for it: the pending sends of
  the backlog loop return, then \<open>push_task\<close> runs once for each message of the mailbox.
\<close>

definition ws_drain :: "nat \<Rightarrow> app \<times> ws_conn \<Rightarrow> ws_input event list" where
  "ws_drain queue s =
     replicate (Suc (length (ws_pending (snd s)))) (Step (Returns JNull))
       @ replicate (length (mailbox (bcast (fst s)) queue)) (Step Push)"

section \<open>Example states\<close>

text \<open>An empty table with the sequence at 1, and a broadcaster without subscribers.\<close>

definition app0 :: app where
  "app0 = \<lparr>db = \<lparr>rows = [], next_seq = 1\<rparr>,
           bcast = \<lparr>subscribers = [], mailbox = (\<lambda>queue. []), next_queue = 0\<rparr>\<rparr>"

definition body_A :: dict where
  "body_A = [(''type'', JStr ''A''), (''payload'', JObject [])]"

definition body_B :: dict where
  "body_B = [(''type'', JStr ''B''), (''payload'', JObject [])]"

text \<open>The state after the two writes of the concrete scenario: seq 1 and seq 2.\<close>

definition app2 :: app where
  "app2 = snd (create_notification body_B ''id-2'' ''t2''
            (snd (create_notification body_A ''id-1'' ''t1'' app0)))"

definition row_A :: notification where
  "row_A = \<lparr>n_id = ''id-1'', n_seq = 1, n_type = JStr ''A'', n_payload = JObject [],
            n_created_at = Some ''t1''\<rparr>"

definition row_B :: notification where
  "row_B = \<lparr>n_id = ''id-2'', n_seq = 2, n_type = JStr ''B'', n_payload = JObject [],
            n_created_at = Some ''t2''\<rparr>"

text \<open>The answer to a poll with cursor 0 after the two writes.\<close>

definition poll_answer :: poll_response where
  "poll_answer = \<lparr>items = [to_dict row_A, to_dict row_B], next_after_seq = JInt 2\<rparr>"

text \<open>A push-stream client without \<open>last_event_id\<close>, before its generator first runs.\<close>

definition sse0 :: sse_conn where
  "sse0 = \<lparr>last_event_id = None, sse_pc = SSE_Start, cursor = 0, sse_out = []\<rparr>"

text \<open>A socket client whose \<open>accept\<close> is pending.\<close>

definition ws0 :: ws_conn where
  "ws0 = \<lparr>ws_pc = WS_Start, ws_out = []\<rparr>"

definition body_C :: dict where
  "body_C = [(''type'', JStr ''C''), (''payload'', JObject [])]"

definition row_C :: notification where
  "row_C = \<lparr>n_id = ''id-3'', n_seq = 3, n_type = JStr ''C'', n_payload = JObject [],
            n_created_at = Some ''t3''\<rparr>"

text \<open>The state after the first write alone.\<close>

definition app1 :: app where
  "app1 = snd (create_notification body_A ''id-1'' ''t1'' app0)"

text \<open>Hello messages: with cursor 0, with cursor 1, and without \<open>last_seq\<close>.\<close>

definition hello_0 :: dict where
  "hello_0 = [(''type'', JStr ''hello''), (''last_seq'', JInt 0)]"

definition hello_1 :: dict where
  "hello_1 = [(''type'', JStr ''hello''), (''last_seq'', JInt 1)]"

definition hello_bare :: dict where
  "hello_bare = [(''type'', JStr ''hello'')]"

text \<open>A first message that is a JSON object but not a hello.\<close>

definition bye :: dict where
  "bye = [(''type'', JStr ''bye'')]"

text \<open>A push-stream client that reconnects with \<open>last_event_id = 5\<close>.\<close>

definition sse5 :: sse_conn where
  "sse5 = \<lparr>last_event_id = Some 5, sse_pc = SSE_Start, cursor = 0, sse_out = []\<rparr>"

text \<open>
  A socket client is accepted, seq 3 is written while the server waits for its hello
  with cursor 1, the two backlog sends return and \<open>push_task\<close> runs once.
\<close>

definition write_during_handshake :: "ws_input event list" where
  "write_during_handshake =
     Step (Returns JNull) # [Create body_C ''id-3'' ''t3'']
       @ Step (Returns (JObject hello_1)) # [Step (Returns JNull), Step (Returns JNull), Step Push]"

text \<open>
  A push-stream client connects and is sent the backlog item seq 1; seq 2 is written
  while that frame is on its way; the generator resumes and the client then idles.
\<close>

definition write_during_backlog :: "(bool \<times> nat) event list" where
  "write_during_backlog =
     [Step (False, 0), Create body_B ''id-2'' ''t2'', Step (False, 0), Step (False, 15)]"

text \<open>A table of 201 rows, seq 1 to 201.\<close>

definition row_n :: "nat \<Rightarrow> notification" where
  "row_n i = \<lparr>n_id = ''id'', n_seq = int i, n_type = JStr ''A'', n_payload = JObject [],
              n_created_at = Some ''t''\<rparr>"

definition app201 :: app where
  "app201 = app0\<lparr>db := \<lparr>rows = map row_n [1..<202], next_seq = 202\<rparr>\<rparr>"

text \<open>
  A push-stream client with the stale cursor 5 connects to the table of two rows and
  subscribes at once (its backlog is empty); seq 3 is written; the generator resumes.
\<close>

definition write_below_cursor :: "(bool \<times> nat) event list" where
  "write_below_cursor = [Step (False, 0), Create body_C ''id-3'' ''t3'', Step (False, 0)]"

text \<open>
  A socket client is accepted on the empty table, seq 1 is written while the server
  waits for its hello with cursor 0, the backlog send returns and \<open>push_task\<close> runs.
\<close>

definition first_write_during_handshake :: "ws_input event list" where
  "first_write_during_handshake =
     [Step (Returns JNull), Create body_A ''id-1'' ''t1'', Step (Returns (JObject hello_0)),
      Step (Returns JNull), Step Push]"

text \<open>The states of the two live loops with an empty mailbox and with seq 3 in it.\<close>

definition sse_idle :: "app \<times> sse_conn" where
  "sse_idle = run sse_step [Step (False, 0), Step (False, 0), Step (False, 0)] (app2, sse0)"

definition sse_fed :: "app \<times> sse_conn" where
  "sse_fed = run sse_step [Step (False, 0), Step (False, 0), Step (False, 0),
                           Create body_C ''id-3'' ''t3''] (app2, sse0)"

definition ws_fed :: "app \<times> ws_conn" where
  "ws_fed = run ws_step [Step (Returns JNull), Step (Returns (JObject hello_bare)),
                         Step (Returns JNull), Step (Returns JNull),
                         Create body_C ''id-3'' ''t3''] (app2, ws0)"

text \<open>A socket client accepted on the table of two rows, waiting for its hello.\<close>

definition ws_waiting :: "app \<times> ws_conn" where
  "ws_waiting = ws_step (Returns JNull) (app2, ws0)"

text \<open>
  A socket client is accepted on the empty table, seq 1 is written while the server
  waits, and the first message is \<open>{"type": "bye"}\<close>.
\<close>

definition bye_handshake :: "ws_input event list" where
  "bye_handshake =
     Step (Returns JNull) # [Create body_A ''id-1'' ''t1''] @ [Step (Returns (JObject bye))]"

text \<open>A socket client is accepted on the table of 201 rows and says hello without \<open>last_seq\<close>.\<close>

definition bare_hello_on_201 :: "app \<times> ws_conn" where
  "bare_hello_on_201 =
     run ws_step [Step (Returns JNull), Step (Returns (JObject hello_bare))] (app201, ws0)"

section \<open>The range query\<close>

lemma range_rows_sorted: "sorted (map n_seq (range_rows a l rs))"
  unfolding range_rows_def by (metis sorted_sort_key sorted_wrt_take take_map)

lemma range_rows_mset: "mset (range_rows a l rs) \<subseteq># mset rs"
proof -
  have "mset (range_rows a l rs) \<subseteq># mset (sort_key n_seq (filter (\<lambda>n. a < n_seq n) rs))"
    unfolding range_rows_def by (metis append_take_drop_id mset_subset_eq_add_left union_code)
  also have "\<dots> \<subseteq># mset rs" by simp
  finally show ?thesis .
qed

lemma range_rows_after: "n \<in> set (range_rows a l rs) \<Longrightarrow> a < n_seq n"
  unfolding range_rows_def by (auto dest: in_set_takeD)

lemma range_rows_length: "length (range_rows a l rs) \<le> l"
  unfolding range_rows_def by simp

text \<open>What a limit cuts off a sorted list is not smaller than anything it keeps.\<close>

lemma sorted_take_lowest:
  assumes "sorted (map f xs)" "m \<in> set xs" "m \<notin> set (take l xs)"
  shows "length (take l xs) = l \<and> (\<forall>n\<in>set (take l xs). f n \<le> f m)"
proof -
  from assms(2,3) have md: "m \<in> set (drop l xs)"
    by (metis Un_iff append_take_drop_id set_append)
  then have "l < length xs" by (cases "l < length xs") auto
  moreover have "sorted (map f (take l xs) @ map f (drop l xs))"
    using assms(1) by (metis append_take_drop_id map_append)
  then have "\<forall>n\<in>set (take l xs). f n \<le> f m"
    using md by (auto simp: sorted_append)
  ultimately show ?thesis by simp
qed

lemma range_rows_lowest:
  assumes "m \<in> set rs" "a < n_seq m" "m \<notin> set (range_rows a l rs)"
  shows "length (range_rows a l rs) = l \<and> (\<forall>n\<in>set (range_rows a l rs). n_seq n \<le> n_seq m)"
proof -
  let ?xs = "sort_key n_seq (filter (\<lambda>n. a < n_seq n) rs)"
  have "sorted (map n_seq ?xs)" by simp
  moreover have "m \<in> set ?xs" using assms by simp
  moreover have "m \<notin> set (take l ?xs)" using assms(3) by (simp add: range_rows_def)
  ultimately show ?thesis unfolding range_rows_def by (rule sorted_take_lowest)
qed

lemma last_to_dict_seq:
  "its \<noteq> [] \<Longrightarrow> subscript (last (map to_dict its)) ''seq'' = Inr (JInt (n_seq (last its)))"
  by (simp add: last_map subscript_def to_dict_def)

section \<open>Polling\<close>

text \<open>
  C5. Every polling request that is answered returns the rows of the table with
  \<open>seq > after_seq\<close>, each as its dict, in ascending \<open>seq\<close> order and at most \<open>limit\<close>
  of them, the lowest ones when the limit cuts; \<open>next_after_seq\<close> is the \<open>seq\<close> of the
  last item returned, or the cursor \<open>after_seq\<close> itself when nothing was found.
\<close>

theorem poll_notifications_result:
  assumes "fst (poll_notifications after_seq limit st) = Inr r"
  shows "\<exists>its. items r = map to_dict its
           \<and> mset its \<subseteq># mset (rows (db st))
           \<and> (\<forall>n\<in>set its. after_seq < n_seq n)
           \<and> sorted (map n_seq its)
           \<and> int (length its) \<le> limit
           \<and> (\<forall>m\<in>set (rows (db st)). after_seq < n_seq m \<longrightarrow>
                 m \<in> set its \<or> (int (length its) = limit \<and> (\<forall>n\<in>set its. n_seq n \<le> n_seq m)))
           \<and> next_after_seq r = (if its = [] then JInt after_seq else JInt (n_seq (last its)))"
proof -
  let ?its = "range_rows after_seq (nat limit) (rows (db st))"
  from assms have lim: "0 \<le> limit" "limit \<le> 200"
    by (auto simp: poll_notifications_def db_query_def split: if_splits)
  from assms lim have r: "r = \<lparr>items = map to_dict ?its,
        next_after_seq = (if ?its = [] then JInt after_seq else JInt (n_seq (last ?its)))\<rparr>"
    by (auto simp: poll_notifications_def db_query_def Let_def last_to_dict_seq split: if_splits)
  have "int (length ?its) \<le> limit"
    using range_rows_length [of after_seq "nat limit" "rows (db st)"] lim by linarith
  moreover have "\<forall>m\<in>set (rows (db st)). after_seq < n_seq m \<longrightarrow>
      m \<in> set ?its \<or> (int (length ?its) = limit \<and> (\<forall>n\<in>set ?its. n_seq n \<le> n_seq m))"
    using range_rows_lowest [of _ "rows (db st)" after_seq "nat limit"] lim by fastforce
  ultimately show ?thesis
    using r range_rows_mset range_rows_sorted range_rows_after
    by (intro exI [of _ ?its]) simp
qed

lemma app2_db: "db app2 = \<lparr>rows = [row_A, row_B], next_seq = 3\<rparr>"
  by (simp add: app2_def app0_def create_notification_def has_key_def subscript_def
      body_A_def body_B_def db_add_commit_def Let_def row_A_def row_B_def to_dict_def
      broadcast_def)

lemma app2_bcast: "bcast app2 = bcast app0"
  by (simp add: app2_def app0_def create_notification_def has_key_def subscript_def
      body_A_def body_B_def db_add_commit_def Let_def row_A_def row_B_def to_dict_def
      broadcast_def)

lemma range_rows_AB: "range_rows 0 l [row_A, row_B] = take l [row_A, row_B]"
  by (simp add: range_rows_def row_A_def row_B_def)

lemma poll_app2: "fst (poll_notifications 0 50 app2) = Inr poll_answer"
  by (simp add: poll_notifications_def db_query_def app2_db range_rows_AB Let_def
      poll_answer_def last_to_dict_seq [of "[row_A, row_B]", simplified])
     (simp add: row_B_def)

theorem poll_notifications_result_witness:
  "fst (poll_notifications 0 50 app2) = Inr poll_answer
   \<and> (\<exists>its. items poll_answer = map to_dict its
           \<and> mset its \<subseteq># mset (rows (db app2))
           \<and> (\<forall>n\<in>set its. 0 < n_seq n)
           \<and> sorted (map n_seq its)
           \<and> int (length its) \<le> 50
           \<and> (\<forall>m\<in>set (rows (db app2)). 0 < n_seq m \<longrightarrow>
                 m \<in> set its \<or> (int (length its) = 50 \<and> (\<forall>n\<in>set its. n_seq n \<le> n_seq m)))
           \<and> next_after_seq poll_answer = (if its = [] then JInt 0 else JInt (n_seq (last its))))"
  using poll_app2 poll_notifications_result [OF poll_app2] by (rule conjI)

text \<open>
  C7. Polling is read-only and idempotent: the request leaves the whole shared state
  (table, sequence, subscriber list, every mailbox) as it found it, and a second
  request with the same cursor and limit returns the same answer.
\<close>

theorem poll_notifications_read_only:
  "snd (poll_notifications after_seq limit st) = st
   \<and> fst (poll_notifications after_seq limit (snd (poll_notifications after_seq limit st)))
       = fst (poll_notifications after_seq limit st)"
  by (simp add: poll_notifications_def Let_def split: sum.splits)

section \<open>Creating a notification\<close>

text \<open>
  C6. A body without \<open>type\<close> or without \<open>payload\<close> is answered with status 400 and the
  table keeps its rows. A request that succeeds is answered with status 201 and the dict
  of the row it appended: the keys \<open>id\<close>, \<open>seq\<close>, \<open>type\<close>, \<open>payload\<close>, \<open>created_at\<close>, the
  \<open>seq\<close> drawn from the sequence, \<open>type\<close> and \<open>payload\<close> as the body gave them.
\<close>

theorem create_notification_status:
  "((\<not> has_key data ''type'' \<or> \<not> has_key data ''payload'') \<longrightarrow>
      fst (create_notification data uuid now st)
        = Inl (HTTPException 400 ''Missing type or payload'')
      \<and> rows (db (snd (create_notification data uuid now st))) = rows (db st))
   \<and> (\<forall>status result.
        fst (create_notification data uuid now st) = Inr (status, result) \<longrightarrow>
        status = 201
        \<and> (\<exists>n. result = to_dict n
               \<and> rows (db (snd (create_notification data uuid now st))) = rows (db st) @ [n]
               \<and> n_id n = uuid \<and> n_seq n = next_seq (db st)
               \<and> map_of data ''type'' = Some (n_type n)
               \<and> map_of data ''payload'' = Some (n_payload n)
               \<and> n_created_at n = Some now)
        \<and> map fst result = [''id'', ''seq'', ''type'', ''payload'', ''created_at''])"
  by (auto simp: create_notification_def has_key_def subscript_def db_add_commit_def Let_def
      to_dict_def split: option.splits if_splits)

lemma create_A_app0:
  "create_notification body_A ''id-1'' ''t1'' app0
     = (Inr (201, to_dict row_A), app0\<lparr>db := \<lparr>rows = [row_A], next_seq = 2\<rparr>\<rparr>)"
  by (simp add: create_notification_def has_key_def subscript_def db_add_commit_def Let_def
      body_A_def row_A_def app0_def broadcast_def)

theorem create_notification_status_witness:
  "fst (create_notification [(''type'', JStr ''A'')] ''id-1'' ''t1'' app0)
     = Inl (HTTPException 400 ''Missing type or payload'')
   \<and> rows (db (snd (create_notification [(''type'', JStr ''A'')] ''id-1'' ''t1'' app0)))
       = rows (db app0)
   \<and> fst (create_notification body_A ''id-1'' ''t1'' app0) = Inr (201, to_dict row_A)
   \<and> map fst (to_dict row_A) = [''id'', ''seq'', ''type'', ''payload'', ''created_at'']"
proof -
  have missing: "\<not> has_key [(''type'', JStr ''A'')] ''type''
      \<or> \<not> has_key [(''type'', JStr ''A'')] ''payload''"
    by (simp add: has_key_def)
  have created: "fst (create_notification body_A ''id-1'' ''t1'' app0) = Inr (201, to_dict row_A)"
    by (simp add: create_A_app0)
  from create_notification_status [of "[(''type'', JStr ''A'')]" "''id-1''" "''t1''" app0] missing
    create_notification_status [of body_A "''id-1''" "''t1''" app0] created
  show ?thesis by blast
qed

text \<open>
  C9. The presence check comes before any change of state: the request is rejected with
  400 exactly when \<open>type\<close> or \<open>payload\<close> is missing, and a rejected request leaves the
  whole shared state as it was: no row, no number drawn from the sequence, nothing put
  into any mailbox.
\<close>

theorem create_notification_validates_first:
  "((\<exists>detail. fst (create_notification data uuid now st) = Inl (HTTPException 400 detail))
      = (\<not> has_key data ''type'' \<or> \<not> has_key data ''payload''))
   \<and> ((\<exists>detail. fst (create_notification data uuid now st) = Inl (HTTPException 400 detail))
        \<longrightarrow> snd (create_notification data uuid now st) = st)"
  by (auto simp: create_notification_def has_key_def subscript_def db_add_commit_def Let_def
      split: option.splits if_splits)

theorem create_notification_validates_first_witness:
  "fst (create_notification [(''payload'', JObject [])] ''id-3'' ''t3'' app2)
     = Inl (HTTPException 400 ''Missing type or payload'')
   \<and> snd (create_notification [(''payload'', JObject [])] ''id-3'' ''t3'' app2) = app2"
proof -
  have h: "fst (create_notification [(''payload'', JObject [])] ''id-3'' ''t3'' app2)
     = Inl (HTTPException 400 ''Missing type or payload'')"
    by (simp add: create_notification_def has_key_def)
  then have "\<exists>detail. fst (create_notification [(''payload'', JObject [])] ''id-3'' ''t3'' app2)
     = Inl (HTTPException 400 detail)" by blast
  with create_notification_validates_first [of "[(''payload'', JObject [])]" "''id-3''" "''t3''" app2] h
  show ?thesis by blast
qed

section \<open>Fan-out\<close>

lemma foldl_put:
  "subscribers (foldl (put m) b qs) = subscribers b
   \<and> next_queue (foldl (put m) b qs) = next_queue b
   \<and> mailbox (foldl (put m) b qs) q = mailbox b q @ replicate (count_list qs q) m"
  by (induction qs arbitrary: b) (auto simp: put_def replicate_app_Cons_same)

lemma broadcast_subscribers [simp]: "subscribers (broadcast m b) = subscribers b"
  by (simp add: broadcast_def foldl_put)

lemma broadcast_next_queue [simp]: "next_queue (broadcast m b) = next_queue b"
  by (simp add: broadcast_def foldl_put)

lemma distinct_count_list:
  "distinct qs \<Longrightarrow> count_list qs q = (if q \<in> set qs then 1 else 0)"
  by (induction qs) auto

lemma broadcast_mailbox:
  "distinct (subscribers b) \<Longrightarrow>
   mailbox (broadcast m b) q = mailbox b q @ (if q \<in> set (subscribers b) then [m] else [])"
  by (auto simp: broadcast_def foldl_put distinct_count_list)

lemma create_subscribers [simp]:
  "subscribers (bcast (snd (create_notification d u t st))) = subscribers (bcast st)"
  by (simp add: create_notification_def db_add_commit_def Let_def split: sum.splits)

lemma create_next_queue [simp]:
  "next_queue (bcast (snd (create_notification d u t st))) = next_queue (bcast st)"
  by (simp add: create_notification_def db_add_commit_def Let_def split: sum.splits)

lemma create_mailbox:
  "distinct (subscribers (bcast st)) \<Longrightarrow>
   mailbox (bcast (snd (create_notification d u t st))) q
     = mailbox (bcast st) q
       @ (if q \<in> set (subscribers (bcast st))
          then answered (fst (create_notification d u t st)) else [])"
  by (simp add: create_notification_def db_add_commit_def Let_def answered_def broadcast_mailbox
      split: sum.splits)

section \<open>Schedules of a socket connection\<close>

lemma run_Nil [simp]: "run step [] s = s"
  by (simp add: run_def)

lemma run_Cons [simp]: "run step (ev # evs) s = run step evs (exec step s ev)"
  by (simp add: run_def)

lemma run_append: "run step (xs @ ys) s = run step ys (run step xs s)"
  by (simp add: run_def)

lemma created_append:
  "created step (xs @ ys) s = created step xs s @ created step ys (run step xs s)"
  by (induction xs arbitrary: s) simp_all

lemma created_Create:
  "created step (Create d u t # evs) s
     = answered (fst (create_notification d u t (fst s)))
       @ created step evs (exec step s (Create d u t))"
  by (simp add: answered_def split: sum.splits)

lemma created_Step: "created step (Step i # evs) s = created step evs (exec step s (Step i))"
  by simp

lemma ws_exec_serving:
  assumes "ws_serving q (snd s)" "q \<in> set (subscribers (bcast (fst s)))"
    "distinct (subscribers (bcast (fst s)))" "\<not> is_raise ev"
  shows "ws_serving q (snd (exec ws_step s ev))
         \<and> subscribers (bcast (fst (exec ws_step s ev))) = subscribers (bcast (fst s))
         \<and> ws_stream q (exec ws_step s ev)
             = ws_stream q s @ map notification_message (created ws_step [ev] s)"
proof (cases ev)
  case (Create d u t)
  with assms show ?thesis
    by (simp add: exec_def ws_stream_def create_mailbox answered_def split: sum.splits)
next
  case (Step i)
  obtain st c where s: "s = (st, c)" by (cases s)
  from assms(4) Step have nr: "\<And>e. i \<noteq> Raises e" by (auto simp: is_raise_def)
  show ?thesis
  proof (cases "ws_pc c")
    case (WS_Send q' rest)
    with assms s Step nr show ?thesis
      by (cases i; cases rest)
         (auto simp: exec_def ws_step_def ws_serving_def ws_stream_def ws_pending_def ws_backlog_def)
  next
    case (WS_Live q')
    with assms s Step nr show ?thesis
      by (cases i; cases "mailbox (bcast st) q")
         (auto simp: exec_def ws_step_def ws_serving_def ws_stream_def ws_pending_def get_nowait_def)
  qed (use assms s in \<open>auto simp: ws_serving_def\<close>)
qed

lemma ws_run_serving:
  assumes "ws_serving q (snd s)" "q \<in> set (subscribers (bcast (fst s)))"
    "distinct (subscribers (bcast (fst s)))" "\<forall>ev\<in>set evs. \<not> is_raise ev"
  shows "ws_serving q (snd (run ws_step evs s))
         \<and> subscribers (bcast (fst (run ws_step evs s))) = subscribers (bcast (fst s))
         \<and> ws_stream q (run ws_step evs s)
             = ws_stream q s @ map notification_message (created ws_step evs s)"
  using assms
proof (induction evs arbitrary: s)
  case Nil
  then show ?case by simp
next
  case (Cons ev evs)
  from Cons.prems have step: "ws_serving q (snd (exec ws_step s ev))"
    "subscribers (bcast (fst (exec ws_step s ev))) = subscribers (bcast (fst s))"
    "ws_stream q (exec ws_step s ev)
       = ws_stream q s @ map notification_message (created ws_step [ev] s)"
    using ws_exec_serving [of q s ev] by simp_all
  from Cons.IH [of "exec ws_step s ev"] step Cons.prems
  have "ws_serving q (snd (run ws_step evs (exec ws_step s ev)))
         \<and> subscribers (bcast (fst (run ws_step evs (exec ws_step s ev))))
             = subscribers (bcast (fst s))
         \<and> ws_stream q (run ws_step evs (exec ws_step s ev))
             = ws_stream q (exec ws_step s ev)
               @ map notification_message (created ws_step evs (exec ws_step s ev))"
    by simp
  moreover have "created ws_step (ev # evs) s
      = created ws_step [ev] s @ created ws_step evs (exec ws_step s ev)"
    using created_append [of ws_step "[ev]" evs s] by simp
  ultimately show ?case using step by simp
qed

lemma ws_exec_hello:
  assumes "ws_pc (snd s) = WS_Hello q" "q \<in> set (subscribers (bcast (fst s)))"
    "distinct (subscribers (bcast (fst s)))" "\<not> is_resumption ev"
  shows "ws_pc (snd (exec ws_step s ev)) = WS_Hello q
         \<and> ws_out (snd (exec ws_step s ev)) = ws_out (snd s)
         \<and> subscribers (bcast (fst (exec ws_step s ev))) = subscribers (bcast (fst s))
         \<and> mailbox (bcast (fst (exec ws_step s ev))) q
             = mailbox (bcast (fst s)) q @ created ws_step [ev] s"
proof (cases ev)
  case (Create d u t)
  with assms show ?thesis
    by (simp add: exec_def create_mailbox answered_def split: sum.splits)
next
  case (Step i)
  obtain st c where s: "s = (st, c)" by (cases s)
  from assms(4) Step have "i = Push" by (cases i) (auto simp: is_resumption_def)
  with assms s Step show ?thesis
    by (simp add: exec_def ws_step_def)
qed

lemma ws_run_hello:
  assumes "ws_pc (snd s) = WS_Hello q" "q \<in> set (subscribers (bcast (fst s)))"
    "distinct (subscribers (bcast (fst s)))" "\<forall>ev\<in>set evs. \<not> is_resumption ev"
  shows "ws_pc (snd (run ws_step evs s)) = WS_Hello q
         \<and> ws_out (snd (run ws_step evs s)) = ws_out (snd s)
         \<and> subscribers (bcast (fst (run ws_step evs s))) = subscribers (bcast (fst s))
         \<and> mailbox (bcast (fst (run ws_step evs s))) q
             = mailbox (bcast (fst s)) q @ created ws_step evs s"
  using assms
proof (induction evs arbitrary: s)
  case Nil
  then show ?case by simp
next
  case (Cons ev evs)
  from Cons.prems have step: "ws_pc (snd (exec ws_step s ev)) = WS_Hello q"
    "ws_out (snd (exec ws_step s ev)) = ws_out (snd s)"
    "subscribers (bcast (fst (exec ws_step s ev))) = subscribers (bcast (fst s))"
    "mailbox (bcast (fst (exec ws_step s ev))) q
       = mailbox (bcast (fst s)) q @ created ws_step [ev] s"
    using ws_exec_hello [of s q ev] by simp_all
  from Cons.IH [of "exec ws_step s ev"] step Cons.prems
  have "ws_pc (snd (run ws_step evs (exec ws_step s ev))) = WS_Hello q
         \<and> ws_out (snd (run ws_step evs (exec ws_step s ev))) = ws_out (snd s)
         \<and> subscribers (bcast (fst (run ws_step evs (exec ws_step s ev))))
             = subscribers (bcast (fst s))
         \<and> mailbox (bcast (fst (run ws_step evs (exec ws_step s ev)))) q
             = mailbox (bcast (fst (exec ws_step s ev))) q
               @ created ws_step evs (exec ws_step s ev)"
    by simp
  moreover have "created ws_step (ev # evs) s
      = created ws_step [ev] s @ created ws_step evs (exec ws_step s ev)"
    using created_append [of ws_step "[ev]" evs s] by simp
  ultimately show ?case using step by simp
qed

lemma ws_accept:
  assumes "bcast_ok (bcast st)" "ws_pc c = WS_Start"
  shows "ws_pc (snd (ws_step (Returns v) (st, c))) = WS_Hello (next_queue (bcast st))"
    and "ws_out (snd (ws_step (Returns v) (st, c))) = ws_out c"
    and "db (fst (ws_step (Returns v) (st, c))) = db st"
    and "next_queue (bcast st) \<in> set (subscribers (bcast (fst (ws_step (Returns v) (st, c)))))"
    and "distinct (subscribers (bcast (fst (ws_step (Returns v) (st, c)))))"
    and "mailbox (bcast (fst (ws_step (Returns v) (st, c)))) (next_queue (bcast st)) = []"
  using assms by (auto simp: ws_step_def subscribe_def Let_def bcast_ok_def)

lemma ws_hello_ok:
  assumes "ws_pc c = WS_Hello q" "map_of hello ''type'' = Some (JStr ''hello'')"
    "get_default hello ''last_seq'' (JInt 0) = JInt C"
  shows "ws_serving q (snd (ws_step (Returns (JObject hello)) (st, c)))
         \<and> fst (ws_step (Returns (JObject hello)) (st, c)) = st
         \<and> ws_out (snd (ws_step (Returns (JObject hello)) (st, c)))
             @ ws_pending (snd (ws_step (Returns (JObject hello)) (st, c)))
           = ws_out c
             @ map (\<lambda>item. notification_message (to_dict item)) (range_rows C 200 (rows (db st)))"
  using assms
  by (cases "range_rows C 200 (rows (db st))")
     (simp_all add: ws_step_def ws_hello_def ws_backlog_def ws_serving_def ws_pending_def)

lemma ws_drain_send:
  assumes "ws_pc c = WS_Send q rest"
  shows "ws_pc (snd (run ws_step (replicate (Suc (length rest)) (Step (Returns v))) (st, c)))
           = WS_Live q
         \<and> fst (run ws_step (replicate (Suc (length rest)) (Step (Returns v))) (st, c)) = st"
  using assms
proof (induction rest arbitrary: c)
  case Nil
  then show ?case by (simp add: exec_def ws_step_def ws_backlog_def)
next
  case (Cons item rest)
  let ?c = "c\<lparr>ws_pc := WS_Send q rest, ws_out := ws_out c @ [notification_message (to_dict item)]\<rparr>"
  from Cons.prems have "exec ws_step (st, c) (Step (Returns v)) = (st, ?c)"
    by (simp add: exec_def ws_step_def ws_backlog_def)
  moreover have "ws_pc ?c = WS_Send q rest" by simp
  ultimately show ?case using Cons.IH [of ?c] by simp
qed

lemma ws_drain_live:
  assumes "ws_pc (snd s) = WS_Live q" "length (mailbox (bcast (fst s)) q) = k"
  shows "mailbox (bcast (fst (run ws_step (replicate k (Step Push)) s))) q = []
         \<and> ws_pc (snd (run ws_step (replicate k (Step Push)) s)) = WS_Live q"
  using assms
proof (induction k arbitrary: s)
  case 0
  then show ?case by simp
next
  case (Suc k)
  obtain st c where s: "s = (st, c)" by (cases s)
  from Suc.prems s obtain msg ms where m: "mailbox (bcast st) q = msg # ms" "length ms = k"
    by (cases "mailbox (bcast st) q") auto
  let ?s = "exec ws_step s (Step Push)"
  from Suc.prems s m have "ws_pc (snd ?s) = WS_Live q" "length (mailbox (bcast (fst ?s)) q) = k"
    by (simp_all add: exec_def ws_step_def get_nowait_def)
  from Suc.IH [OF this] show ?case by simp
qed

lemma created_replicate_Step: "created step (replicate n (Step i)) s = []"
  by (induction n arbitrary: s) simp_all

lemma ws_drain_delivers:
  assumes "ws_serving q (snd s)" "q \<in> set (subscribers (bcast (fst s)))"
    "distinct (subscribers (bcast (fst s)))"
  shows "ws_out (snd (run ws_step (ws_drain q s) s)) = ws_stream q s"
proof -
  obtain st c where s: "s = (st, c)" by (cases s)
  let ?rs = "replicate (Suc (length (ws_pending c))) (Step (Returns JNull)) :: ws_input event list"
  let ?ps = "replicate (length (mailbox (bcast st) q)) (Step Push) :: ws_input event list"
  have live: "ws_pc (snd (run ws_step ?rs s)) = WS_Live q \<and> fst (run ws_step ?rs s) = st"
  proof (cases "ws_pc c")
    case (WS_Send q' rest)
    with assms(1) s have "q' = q" by (simp add: ws_serving_def)
    with WS_Send ws_drain_send [of c q rest JNull st] s show ?thesis
      by (simp add: ws_pending_def)
  next
    case (WS_Live q')
    with assms(1) s show ?thesis
      by (simp add: ws_serving_def ws_pending_def exec_def ws_step_def)
  qed (use assms(1) s in \<open>auto simp: ws_serving_def\<close>)
  then have "mailbox (bcast (fst (run ws_step ?ps (run ws_step ?rs s)))) q = []
      \<and> ws_pc (snd (run ws_step ?ps (run ws_step ?rs s))) = WS_Live q"
    by (intro ws_drain_live) simp_all
  then have fin: "mailbox (bcast (fst (run ws_step (ws_drain q s) s))) q = []"
    "ws_pending (snd (run ws_step (ws_drain q s) s)) = []"
    by (simp_all add: ws_drain_def s run_append ws_pending_def)
  have "\<forall>ev\<in>set (ws_drain q s). \<not> is_raise ev"
    by (auto simp: ws_drain_def is_raise_def)
  from ws_run_serving [OF assms this]
  have "ws_stream q (run ws_step (ws_drain q s) s)
      = ws_stream q s @ map notification_message (created ws_step (ws_drain q s) s)" by simp
  moreover have "created ws_step (ws_drain q s) s = []"
    by (simp add: ws_drain_def created_append created_replicate_Step)
  ultimately show ?thesis using fin by (simp add: ws_stream_def)
qed

text \<open>
  C1 (as amended). A socket client that is accepted, says hello with cursor \<open>C\<close> and
  stays connected: what it has been sent together with what is queued for it is, in this
  order, the rows with \<open>seq > C\<close> of the table at the time the hello is handled, in
  ascending \<open>seq\<close> order and cut to the 200 lowest, followed by every record created
  since the connection was accepted, in creation order; and the connection's own steps
  send all of it. This holds for every schedule of create requests around the steps of
  the connection. Nothing created while connected is missed; a record created between
  the accept and the hello is in both parts when its \<open>seq\<close> is among the 200 lowest
  above \<open>C\<close>.
\<close>

theorem ws_stream_backlog_then_created:
  assumes "bcast_ok (bcast st)" "ws_pc c = WS_Start" "ws_out c = []"
    and "map_of hello ''type'' = Some (JStr ''hello'')"
    and "get_default hello ''last_seq'' (JInt 0) = JInt C"
    and "\<forall>ev\<in>set evs1. \<not> is_resumption ev"
    and "\<forall>ev\<in>set evs2. \<not> is_raise ev"
    and "evs = Step (Returns v) # evs1 @ Step (Returns (JObject hello)) # evs2"
    and "queue = next_queue (bcast st)"
  shows "ws_serving queue (snd (run ws_step evs (st, c)))
    \<and> ws_stream queue (run ws_step evs (st, c))
        = map (\<lambda>item. notification_message (to_dict item))
            (range_rows C 200 (rows (db (fst (run ws_step (Step (Returns v) # evs1) (st, c))))))
          @ map notification_message (created ws_step evs (st, c))
    \<and> ws_out (snd (run ws_step (evs @ ws_drain queue (run ws_step evs (st, c))) (st, c)))
        = ws_stream queue (run ws_step evs (st, c))"
proof -
  let ?s0 = "ws_step (Returns v) (st, c)"
  let ?s1 = "run ws_step evs1 ?s0"
  let ?s2 = "ws_step (Returns (JObject hello)) ?s1"
  let ?s3 = "run ws_step evs2 ?s2"
  have run: "run ws_step evs (st, c) = ?s3" "run ws_step (Step (Returns v) # evs1) (st, c) = ?s1"
    by (simp_all add: assms(8) run_append exec_def)
  have s0: "ws_pc (snd ?s0) = WS_Hello queue" "ws_out (snd ?s0) = []"
    "queue \<in> set (subscribers (bcast (fst ?s0)))" "distinct (subscribers (bcast (fst ?s0)))"
    "mailbox (bcast (fst ?s0)) queue = []"
    unfolding assms(9) using ws_accept [OF assms(1,2), of v] assms(3) by simp_all
  from ws_run_hello [OF s0(1,3,4) assms(6)] s0
  have s1: "ws_pc (snd ?s1) = WS_Hello queue" "ws_out (snd ?s1) = []"
    "queue \<in> set (subscribers (bcast (fst ?s1)))" "distinct (subscribers (bcast (fst ?s1)))"
    "mailbox (bcast (fst ?s1)) queue = created ws_step evs1 ?s0"
    by simp_all
  from ws_hello_ok [OF s1(1) assms(4,5), of "fst ?s1"] s1
  have s2: "ws_serving queue (snd ?s2)" "fst ?s2 = fst ?s1"
    "ws_stream queue ?s2
       = map (\<lambda>item. notification_message (to_dict item)) (range_rows C 200 (rows (db (fst ?s1))))
         @ map notification_message (created ws_step evs1 ?s0)"
    by (simp_all add: ws_stream_def)
  from s2(2) s1 have sub2: "queue \<in> set (subscribers (bcast (fst ?s2)))"
    "distinct (subscribers (bcast (fst ?s2)))" by simp_all
  from ws_run_serving [OF s2(1) sub2 assms(7)]
  have s3: "ws_serving queue (snd ?s3)"
    "subscribers (bcast (fst ?s3)) = subscribers (bcast (fst ?s2))"
    "ws_stream queue ?s3 = ws_stream queue ?s2 @ map notification_message (created ws_step evs2 ?s2)"
    by simp_all
  have cr: "created ws_step evs (st, c) = created ws_step evs1 ?s0 @ created ws_step evs2 ?s2"
    by (simp add: assms(8) created_append exec_def)
  from s3(2) sub2 have sub3: "queue \<in> set (subscribers (bcast (fst ?s3)))"
    "distinct (subscribers (bcast (fst ?s3)))" by simp_all
  have "ws_out (snd (run ws_step (ws_drain queue ?s3) ?s3)) = ws_stream queue ?s3"
    by (rule ws_drain_delivers [OF s3(1) sub3])
  with s3 s2 cr run show ?thesis by (simp add: run_append)
qed

section \<open>The example states, evaluated\<close>

lemma app1_eq: "app1 = app0\<lparr>db := \<lparr>rows = [row_A], next_seq = 2\<rparr>\<rparr>"
  by (simp add: app1_def create_A_app0)

lemma app2_eq: "app2 = app0\<lparr>db := \<lparr>rows = [row_A, row_B], next_seq = 3\<rparr>\<rparr>"
  by (simp add: app2_def create_notification_def has_key_def subscript_def
      db_add_commit_def Let_def body_A_def row_A_def body_B_def row_B_def app0_def
      to_dict_def broadcast_def)

lemmas eval_defs = exec_def ws_step_def ws_hello_def ws_backlog_def ws_except_def sse_step_def
  sse_backlog_def subscribe_def unsubscribe_def get_nowait_def create_notification_def
  has_key_def subscript_def get_default_def db_add_commit_def broadcast_def put_def Let_def
  range_rows_def keepalive_timeout_def

lemmas example_defs = app0_def app2_eq app1_eq ws0_def sse0_def sse5_def body_A_def body_B_def
  body_C_def row_A_def row_B_def row_C_def hello_0_def hello_1_def hello_bare_def bye_def

theorem ws_stream_backlog_then_created_witness:
  "ws_serving 0 (snd (run ws_step write_during_handshake (app2, ws0)))
   \<and> ws_stream 0 (run ws_step write_during_handshake (app2, ws0))
       = map (\<lambda>item. notification_message (to_dict item)) [row_B, row_C]
         @ map notification_message [to_dict row_C]
   \<and> ws_out (snd (run ws_step
         (write_during_handshake
            @ ws_drain 0 (run ws_step write_during_handshake (app2, ws0))) (app2, ws0)))
       = ws_stream 0 (run ws_step write_during_handshake (app2, ws0))"
proof -
  have h1: "bcast_ok (bcast app2)" by (simp add: bcast_ok_def example_defs)
  have h2: "ws_pc ws0 = WS_Start" "ws_out ws0 = []" by (simp_all add: ws0_def)
  have h3: "map_of hello_1 ''type'' = Some (JStr ''hello'')"
    "get_default hello_1 ''last_seq'' (JInt 0) = JInt 1"
    by (simp_all add: hello_1_def get_default_def)
  have h4: "\<forall>ev\<in>set [Create body_C ''id-3'' ''t3'']. \<not> is_resumption ev"
    by (simp add: is_resumption_def)
  have h5: "\<forall>ev\<in>set [Step (Returns JNull), Step (Returns JNull), Step Push]. \<not> is_raise ev"
    by (simp add: is_raise_def)
  have q: "0 = next_queue (bcast app2)" by (simp add: example_defs)
  have b: "range_rows 1 200 (rows (db (fst (run ws_step
      (Step (Returns JNull) # [Create body_C ''id-3'' ''t3'']) (app2, ws0))))) = [row_B, row_C]"
    by (simp add: eval_defs example_defs to_dict_def)
  have c: "created ws_step write_during_handshake (app2, ws0) = [to_dict row_C]"
    by (simp add: write_during_handshake_def eval_defs example_defs to_dict_def)
  from ws_stream_backlog_then_created [OF h1 h2 h3 h4 h5 write_during_handshake_def q]
  show ?thesis by (simp only: b c)
qed

text \<open>
  C1 fails as stated: the client of \<open>write_during_handshake\<close> connects with cursor 1 and
  is sent seq 2, seq 3 and seq 3 again: the record written during the handshake is in its
  backlog and in its mailbox.
\<close>

theorem ws_write_during_handshake_sent_twice:
  "ws_out (snd (run ws_step write_during_handshake (app2, ws0)))
   = [notification_message (to_dict row_B), notification_message (to_dict row_C),
      notification_message (to_dict row_C)]"
  by (simp add: write_during_handshake_def eval_defs example_defs to_dict_def)

text \<open>
  C2. The push-stream generator queries the backlog first and subscribes after the
  backlog loop. After its first step the backlog item is on its way and the broadcaster
  still has no subscriber; the record written then (seq 2) is put into no mailbox, and
  the client, now subscribed with an empty mailbox, gets a keep-alive instead.
\<close>

theorem sse_write_during_backlog_lost:
  "subscribers (bcast (fst (run sse_step [Step (False, 0)] (app1, sse0)))) = []
   \<and> sse_out (snd (run sse_step [Step (False, 0)] (app1, sse0)))
       = [Event (JInt 1) (to_dict row_A)]
   \<and> sse_out (snd (run sse_step write_during_backlog (app1, sse0)))
       = [Event (JInt 1) (to_dict row_A), Ping]
   \<and> sse_pc (snd (run sse_step write_during_backlog (app1, sse0))) = SSE_Live 0
   \<and> mailbox (bcast (fst (run sse_step write_during_backlog (app1, sse0)))) 0 = []
   \<and> rows (db (fst (run sse_step write_during_backlog (app1, sse0)))) = [row_A, row_B]"
  by (simp add: write_during_backlog_def eval_defs example_defs to_dict_def)

section \<open>The live loops\<close>

text \<open>
  C8. In the live loop of the push-stream generator, with the client connected and the
  mailbox empty for the 15 time units of the timeout, the step yields the comment frame
  and nothing else changes: the generator stays in the loop with its queue, the shared
  state (its subscription included) is as before, and \<open>cursor\<close> keeps its value.
\<close>

theorem sse_keepalive:
  assumes "sse_pc c = SSE_Live queue" "\<not> disconnected" "mailbox (bcast st) queue = []"
    and "keepalive_timeout \<le> idle"
  shows "sse_step (disconnected, idle) (st, c) = (st, c\<lparr>sse_out := sse_out c @ [Ping]\<rparr>)
         \<and> sse_pc (snd (sse_step (disconnected, idle) (st, c))) = SSE_Live queue
         \<and> cursor (snd (sse_step (disconnected, idle) (st, c))) = cursor c
         \<and> keepalive_timeout = 15"
  using assms by (simp add: sse_step_def keepalive_timeout_def)

lemma sse_idle_eq:
  "sse_pc (snd sse_idle) = SSE_Live 0 \<and> mailbox (bcast (fst sse_idle)) 0 = []
   \<and> cursor (snd sse_idle) = 2
   \<and> sse_out (snd sse_idle) = [Event (JInt 1) (to_dict row_A), Event (JInt 2) (to_dict row_B)]"
  by (simp add: sse_idle_def eval_defs example_defs to_dict_def)

theorem sse_keepalive_witness:
  "sse_out (snd (sse_step (False, 15) sse_idle)) = sse_out (snd sse_idle) @ [Ping]
   \<and> fst (sse_step (False, 15) sse_idle) = fst sse_idle
   \<and> sse_pc (snd (sse_step (False, 15) sse_idle)) = SSE_Live 0
   \<and> cursor (snd (sse_step (False, 15) sse_idle)) = 2"
proof -
  have h: "sse_pc (snd sse_idle) = SSE_Live 0" "\<not> False"
    "mailbox (bcast (fst sse_idle)) 0 = []" "keepalive_timeout \<le> 15"
    by (simp_all add: sse_idle_eq keepalive_timeout_def)
  have c: "cursor (snd sse_idle) = 2" by (simp add: sse_idle_eq)
  from sse_keepalive [OF h] c h(1) show ?thesis by (simp add: keepalive_timeout_def)
qed

text \<open>
  C3 (as amended). Neither live loop compares \<open>seq\<close> with a watermark: whatever message
  is at the head of the mailbox is taken out and sent to the client. The push-stream
  generator does not touch \<open>cursor\<close> in its live loop; the socket handler has no such
  variable.
\<close>

theorem live_loops_send_every_message:
  "(sse_pc c = SSE_Live queue \<and> mailbox (bcast st) queue = msg # ms
      \<and> subscript msg ''seq'' = Inr i \<longrightarrow>
      sse_out (snd (sse_step (False, idle) (st, c))) = sse_out c @ [Event i msg]
      \<and> mailbox (bcast (fst (sse_step (False, idle) (st, c)))) queue = ms
      \<and> sse_pc (snd (sse_step (False, idle) (st, c))) = SSE_Live queue
      \<and> cursor (snd (sse_step (False, idle) (st, c))) = cursor c)
   \<and> (ws_pc w = WS_Live queue \<and> mailbox (bcast st) queue = msg # ms \<longrightarrow>
      ws_out (snd (ws_step Push (st, w))) = ws_out w @ [notification_message msg]
      \<and> mailbox (bcast (fst (ws_step Push (st, w)))) queue = ms
      \<and> ws_pc (snd (ws_step Push (st, w))) = WS_Live queue)"
  by (simp add: sse_step_def ws_step_def get_nowait_def)

lemma sse_fed_eq:
  "sse_pc (snd sse_fed) = SSE_Live 0 \<and> mailbox (bcast (fst sse_fed)) 0 = [to_dict row_C]
   \<and> cursor (snd sse_fed) = 2
   \<and> sse_out (snd sse_fed) = [Event (JInt 1) (to_dict row_A), Event (JInt 2) (to_dict row_B)]"
  by (simp add: sse_fed_def eval_defs example_defs to_dict_def)

lemma ws_fed_eq:
  "ws_pc (snd ws_fed) = WS_Live 0 \<and> mailbox (bcast (fst ws_fed)) 0 = [to_dict row_C]
   \<and> ws_out (snd ws_fed) = [notification_message (to_dict row_A),
                             notification_message (to_dict row_B)]"
  by (simp add: ws_fed_def eval_defs example_defs to_dict_def)

theorem live_loops_send_every_message_witness:
  "sse_out (snd (sse_step (False, 0) sse_fed))
     = sse_out (snd sse_fed) @ [Event (JInt 3) (to_dict row_C)]
   \<and> mailbox (bcast (fst (sse_step (False, 0) sse_fed))) 0 = []
   \<and> cursor (snd (sse_step (False, 0) sse_fed)) = 2
   \<and> ws_out (snd (ws_step Push ws_fed))
       = ws_out (snd ws_fed) @ [notification_message (to_dict row_C)]
   \<and> mailbox (bcast (fst (ws_step Push ws_fed))) 0 = []"
proof -
  have s: "subscript (to_dict row_C) ''seq'' = Inr (JInt 3)"
    by (simp add: subscript_def to_dict_def row_C_def)
  from live_loops_send_every_message
    [of "snd sse_fed" 0 "fst sse_fed" "to_dict row_C" "[]" "JInt 3" 0 "snd ws_fed"]
    live_loops_send_every_message
    [of "snd sse_fed" 0 "fst ws_fed" "to_dict row_C" "[]" "JInt 3" 0 "snd ws_fed"]
    sse_fed_eq ws_fed_eq s
  show ?thesis by simp
qed

text \<open>
  C3 fails as stated. The push-stream client of \<open>write_below_cursor\<close> has the watermark
  5 (its cursor; its backlog was empty) and is sent seq 3 from its mailbox. The socket
  client of \<open>first_write_during_handshake\<close> has been sent seq 1 as backlog and is sent
  seq 1 again from its mailbox.
\<close>

theorem live_loops_no_watermark_filter:
  "cursor (snd (run sse_step write_below_cursor (app2, sse5))) = 5
   \<and> sse_out (snd (run sse_step write_below_cursor (app2, sse5)))
       = [Event (JInt 3) (to_dict row_C)]
   \<and> ws_out (snd (run ws_step (butlast first_write_during_handshake) (app0, ws0)))
       = [notification_message (to_dict row_A)]
   \<and> mailbox (bcast (fst (run ws_step (butlast first_write_during_handshake) (app0, ws0)))) 0
       = [to_dict row_A]
   \<and> ws_out (snd (run ws_step first_write_during_handshake (app0, ws0)))
       = [notification_message (to_dict row_A), notification_message (to_dict row_A)]"
  by (simp add: write_below_cursor_def first_write_during_handshake_def eval_defs example_defs
      to_dict_def)

section \<open>The handshake of the socket\<close>

lemma ws_accept_subscribers:
  assumes "ws_pc c = WS_Start"
  shows "subscribers (bcast (fst (ws_step (Returns v) (st, c))))
           = subscribers (bcast st) @ [next_queue (bcast st)]"
  using assms by (simp add: ws_step_def subscribe_def Let_def)

lemma unsubscribe_last:
  assumes "queue \<notin> set qs" "subscribers b = qs @ [queue]"
  shows "subscribers (unsubscribe queue b) = qs"
  using assms by (simp add: unsubscribe_def remove1_append)

lemma ws_bad_first_message:
  assumes "ws_pc c = WS_Hello queue"
    and "(\<exists>n. first = Idle n \<and> handshake_timeout \<le> n)
         \<or> first = Raises TimeoutError \<or> first = Raises JSONDecodeError \<or> first = Raises KeyError
         \<or> (\<exists>d. first = Returns (JObject d) \<and> map_of d ''type'' \<noteq> Some (JStr ''hello''))"
  shows "ws_step first (st, c) = (st\<lparr>bcast := unsubscribe queue (bcast st)\<rparr>,
                                  c\<lparr>ws_pc := WS_Closed 1008\<rparr>)"
  using assms by (auto simp: ws_step_def ws_except_def ws_hello_def)

text \<open>
  C4 (as amended). The handler subscribes as soon as the connection is accepted, before
  it waits for the hello. When no message arrives within the 5 time units, or the first
  message is not a text frame of valid JSON (\<open>receive_json\<close> raises \<open>KeyError\<close> or
  \<open>JSONDecodeError\<close>), or it is a JSON object whose \<open>type\<close> is not \<open>hello\<close>, the
  connection is closed with code 1008, nothing has been sent, and the subscription made
  at accept time, registered all through the wait, is removed again: the broadcaster's
  list is what it was before the connection.
\<close>

theorem ws_handshake_failure:
  assumes "bcast_ok (bcast st)" "ws_pc c = WS_Start"
    and "\<forall>ev\<in>set evs. \<not> is_resumption ev"
    and "(\<exists>n. first = Idle n \<and> handshake_timeout \<le> n)
         \<or> first = Raises TimeoutError \<or> first = Raises JSONDecodeError \<or> first = Raises KeyError
         \<or> (\<exists>d. first = Returns (JObject d) \<and> map_of d ''type'' \<noteq> Some (JStr ''hello''))"
  shows "ws_pc (snd (run ws_step (Step (Returns v) # evs @ [Step first]) (st, c))) = WS_Closed 1008
    \<and> ws_out (snd (run ws_step (Step (Returns v) # evs @ [Step first]) (st, c))) = ws_out c
    \<and> subscribers (bcast (fst (run ws_step (Step (Returns v) # evs @ [Step first]) (st, c))))
        = subscribers (bcast st)
    \<and> subscribers (bcast (fst (run ws_step (Step (Returns v) # evs) (st, c))))
        = subscribers (bcast st) @ [next_queue (bcast st)]"
proof -
  let ?q = "next_queue (bcast st)"
  let ?s0 = "ws_step (Returns v) (st, c)"
  let ?s1 = "run ws_step evs ?s0"
  have fresh: "?q \<notin> set (subscribers (bcast st))"
    using assms(1) by (auto simp: bcast_ok_def)
  have sub0: "subscribers (bcast (fst ?s0)) = subscribers (bcast st) @ [?q]"
    by (rule ws_accept_subscribers [OF assms(2)])
  from ws_run_hello [OF ws_accept(1,4,5) [OF assms(1,2), of v] assms(3)]
  have s1: "ws_pc (snd ?s1) = WS_Hello ?q" "ws_out (snd ?s1) = ws_out (snd ?s0)"
    "subscribers (bcast (fst ?s1)) = subscribers (bcast (fst ?s0))"
    by simp_all
  obtain st1 c1 where p: "?s1 = (st1, c1)" by (cases ?s1)
  from s1 p have c1: "ws_pc c1 = WS_Hello ?q" by simp
  have last: "ws_step first ?s1 = (st1\<lparr>bcast := unsubscribe ?q (bcast st1)\<rparr>,
                                   c1\<lparr>ws_pc := WS_Closed 1008\<rparr>)"
    unfolding p by (rule ws_bad_first_message [OF c1 assms(4)])
  have "subscribers (unsubscribe ?q (bcast st1)) = subscribers (bcast st)"
    using s1(3) p sub0 by (intro unsubscribe_last [OF fresh]) simp
  moreover have "run ws_step (Step (Returns v) # evs @ [Step first]) (st, c) = ws_step first ?s1"
    by (simp add: run_append exec_def)
  moreover have "run ws_step (Step (Returns v) # evs) (st, c) = ?s1"
    by (simp add: exec_def)
  moreover have "ws_out (snd ?s0) = ws_out c"
    by (rule ws_accept(2) [OF assms(1,2)])
  ultimately show ?thesis using last s1 p sub0 by simp
qed

theorem ws_handshake_failure_witness:
  "ws_pc (snd (run ws_step bye_handshake (app0, ws0))) = WS_Closed 1008
   \<and> ws_out (snd (run ws_step bye_handshake (app0, ws0))) = []
   \<and> subscribers (bcast (fst (run ws_step bye_handshake (app0, ws0)))) = []
   \<and> subscribers (bcast (fst (run ws_step (butlast bye_handshake) (app0, ws0)))) = [0]
   \<and> ws_pc (snd (run ws_step [Step (Returns JNull), Step (Idle 5)] (app2, ws0))) = WS_Closed 1008
   \<and> subscribers (bcast (fst (run ws_step [Step (Returns JNull), Step (Idle 5)] (app2, ws0)))) = []"
proof -
  have h: "bcast_ok (bcast app0)" "ws_pc ws0 = WS_Start"
    "\<forall>ev\<in>set [Create body_A ''id-1'' ''t1'']. \<not> is_resumption ev"
    "(\<exists>n. Returns (JObject bye) = Idle n \<and> handshake_timeout \<le> n)
       \<or> Returns (JObject bye) = Raises TimeoutError \<or> Returns (JObject bye) = Raises JSONDecodeError
       \<or> Returns (JObject bye) = Raises KeyError
       \<or> (\<exists>d. Returns (JObject bye) = Returns (JObject d)
               \<and> map_of d ''type'' \<noteq> Some (JStr ''hello''))"
    by (simp_all add: bcast_ok_def app0_def ws0_def is_resumption_def bye_def)
  have k: "bcast_ok (bcast app2)" "\<forall>ev\<in>set []. \<not> is_resumption ev"
    "(\<exists>n. Idle 5 = Idle n \<and> handshake_timeout \<le> n)
       \<or> Idle 5 = Raises TimeoutError \<or> Idle 5 = Raises JSONDecodeError
       \<or> Idle 5 = Raises KeyError
       \<or> (\<exists>d. Idle 5 = Returns (JObject d) \<and> map_of d ''type'' \<noteq> Some (JStr ''hello''))"
    by (simp_all add: bcast_ok_def app0_def app2_eq handshake_timeout_def)
  from ws_handshake_failure [OF h, of JNull] ws_handshake_failure [OF k(1) h(2) k(2,3), of JNull]
  show ?thesis
    by (simp add: bye_handshake_def app0_def app2_eq ws0_def)
qed

text \<open>
  C4 fails as stated: on the connection of \<open>bye_handshake\<close>, which ends with close code
  1008, a subscription is created and registered while the server waits for the hello,
  and the record written during the wait is put into its mailbox.
\<close>

theorem ws_subscribed_before_handshake:
  "subscribers (bcast (fst (run ws_step [Step (Returns JNull)] (app0, ws0)))) = [0]
   \<and> mailbox (bcast (fst (run ws_step (butlast bye_handshake) (app0, ws0)))) 0 = [to_dict row_A]
   \<and> ws_pc (snd (run ws_step bye_handshake (app0, ws0))) = WS_Closed 1008"
  by (simp add: bye_handshake_def eval_defs example_defs to_dict_def)

text \<open>
  C10 (as amended). A hello without \<open>last_seq\<close> is no protocol violation: the handshake
  succeeds, the subscription stays, and the cursor is 0. The backlog sent is the rows with
  \<open>seq > 0\<close> in ascending order, cut to the 200 lowest: all of them when there are at
  most 200.
\<close>

theorem ws_hello_without_last_seq:
  assumes "ws_pc c = WS_Hello queue" "map_of hello ''type'' = Some (JStr ''hello'')"
    and "map_of hello ''last_seq'' = None"
  shows "ws_serving queue (snd (ws_step (Returns (JObject hello)) (st, c)))
    \<and> fst (ws_step (Returns (JObject hello)) (st, c)) = st
    \<and> ws_out (snd (ws_step (Returns (JObject hello)) (st, c)))
        @ ws_pending (snd (ws_step (Returns (JObject hello)) (st, c)))
      = ws_out c
        @ map (\<lambda>item. notification_message (to_dict item)) (range_rows 0 200 (rows (db st)))
    \<and> sorted (map n_seq (range_rows 0 200 (rows (db st))))
    \<and> (length (filter (\<lambda>n. 0 < n_seq n) (rows (db st))) \<le> 200 \<longrightarrow>
          mset (range_rows 0 200 (rows (db st)))
            = mset (filter (\<lambda>n. 0 < n_seq n) (rows (db st))))"
proof -
  from assms(3) have "get_default hello ''last_seq'' (JInt 0) = JInt 0"
    by (simp add: get_default_def)
  from ws_hello_ok [OF assms(1,2) this, of st]
  have sent: "ws_serving queue (snd (ws_step (Returns (JObject hello)) (st, c)))
    \<and> fst (ws_step (Returns (JObject hello)) (st, c)) = st
    \<and> ws_out (snd (ws_step (Returns (JObject hello)) (st, c)))
        @ ws_pending (snd (ws_step (Returns (JObject hello)) (st, c)))
      = ws_out c
        @ map (\<lambda>item. notification_message (to_dict item)) (range_rows 0 200 (rows (db st)))" .
  have whole: "length (filter (\<lambda>n. 0 < n_seq n) (rows (db st))) \<le> 200 \<longrightarrow>
          mset (range_rows 0 200 (rows (db st)))
            = mset (filter (\<lambda>n. 0 < n_seq n) (rows (db st)))"
    by (simp add: range_rows_def)
  from sent whole range_rows_sorted [of 0 200 "rows (db st)"] show ?thesis by blast
qed

lemma ws_waiting_eq: "ws_pc (snd ws_waiting) = WS_Hello 0 \<and> ws_out (snd ws_waiting) = []
    \<and> db (fst ws_waiting) = db app2"
  by (simp add: ws_waiting_def ws_step_def subscribe_def Let_def ws0_def app0_def app2_eq)

theorem ws_hello_without_last_seq_witness:
  "ws_serving 0 (snd (ws_step (Returns (JObject hello_bare)) ws_waiting))
   \<and> ws_out (snd (ws_step (Returns (JObject hello_bare)) ws_waiting))
       @ ws_pending (snd (ws_step (Returns (JObject hello_bare)) ws_waiting))
     = [notification_message (to_dict row_A), notification_message (to_dict row_B)]"
proof -
  have h: "ws_pc (snd ws_waiting) = WS_Hello 0" "map_of hello_bare ''type'' = Some (JStr ''hello'')"
    "map_of hello_bare ''last_seq'' = None"
    by (simp_all add: ws_waiting_eq hello_bare_def)
  from ws_hello_without_last_seq [OF h, of "fst ws_waiting"] ws_waiting_eq
  show ?thesis by (simp add: app2_db range_rows_AB)
qed

lemma range_rows_201: "range_rows 0 200 (map row_n [1..<202]) = map row_n [1..<201]"
proof -
  have all: "filter (\<lambda>n. 0 < n_seq n) (map row_n [1..<202]) = map row_n [1..<202]"
    by (rule filter_True) (auto simp: row_n_def)
  have "sorted (map n_seq (map row_n [1..<202]))"
    by (simp add: comp_def row_n_def sorted_map)
  then have "sort_key n_seq (map row_n [1..<202]) = map row_n [1..<202]"
    by (rule sort_key_id_if_sorted)
  with all show ?thesis by (simp add: range_rows_def take_map)
qed

text \<open>
  C10 fails as stated for a table of more than 200 rows: the client of
  \<open>bare_hello_on_201\<close> is sent seq 1 to 200 as its backlog; row 201 has \<open>seq > 0\<close> and is
  not part of it.
\<close>

theorem ws_backlog_stops_at_200:
  "ws_out (snd bare_hello_on_201) @ ws_pending (snd bare_hello_on_201)
     = map (\<lambda>item. notification_message (to_dict item)) (map row_n [1..<201])
   \<and> mailbox (bcast (fst bare_hello_on_201)) 0 = []
   \<and> row_n 201 \<in> set (rows (db app201)) \<and> 0 < n_seq (row_n 201)
   \<and> row_n 201 \<notin> set (map row_n [1..<201])"
proof -
  let ?w = "ws_step (Returns JNull) (app201, ws0)"
  have w: "ws_pc (snd ?w) = WS_Hello 0" "ws_out (snd ?w) = []" "db (fst ?w) = db app201"
    "mailbox (bcast (fst ?w)) 0 = []"
    by (simp_all add: ws_step_def subscribe_def Let_def ws0_def app0_def app201_def)
  have g: "get_default hello_bare ''last_seq'' (JInt 0) = JInt 0"
    "map_of hello_bare ''type'' = Some (JStr ''hello'')"
    by (simp_all add: get_default_def hello_bare_def)
  have b: "bare_hello_on_201 = ws_step (Returns (JObject hello_bare)) (fst ?w, snd ?w)"
    by (simp add: bare_hello_on_201_def exec_def)
  have rows: "rows (db (fst ?w)) = map row_n [1..<202]"
    using w(3) by (simp only: app201_def) simp
  from ws_hello_ok [OF w(1) g(2,1), of "fst ?w"]
  have "ws_out (snd bare_hello_on_201) @ ws_pending (snd bare_hello_on_201)
      = ws_out (snd ?w)
        @ map (\<lambda>item. notification_message (to_dict item)) (range_rows 0 200 (rows (db (fst ?w))))"
    "fst bare_hello_on_201 = fst ?w"
    unfolding b by simp_all
  then have sent: "ws_out (snd bare_hello_on_201) @ ws_pending (snd bare_hello_on_201)
      = map (\<lambda>item. notification_message (to_dict item)) (map row_n [1..<201])"
    and empty: "mailbox (bcast (fst bare_hello_on_201)) 0 = []"
    using w(2,4) by (simp_all only: rows range_rows_201 append_Nil)
  have stored: "row_n 201 \<in> set (rows (db app201))" by (simp add: app201_def)
  have above: "0 < n_seq (row_n 201)" by (simp add: row_n_def)
  have missing: "row_n 201 \<notin> set (map row_n [1..<201])" by (auto simp: row_n_def)
  from sent empty stored above missing show ?thesis by blast
qed

end
